theory Spec2Isabelle
  imports Complex_Main
begin

section \<open>Python strings\<close>

text \<open>
  A Python \<open>str\<close> is a sequence of code points. The model reads a \<^typ>\<open>string\<close> as the
  code points U+0000 to U+00FF, one per \<^typ>\<open>char\<close>, so that \<open>text[5:]\<close> is
  \<^term>\<open>drop 5 text\<close>. On this range \<open>str.lower\<close> keeps the length: it moves
  A-Z and the Latin-1 capitals (U+00C0 to U+00DE without U+00D7) up by 32.
  \<open>str.isspace\<close> holds of U+0009 to U+000D, U+001C to U+0020, U+0085 and U+00A0.
\<close>

definition py_isspace :: "char \<Rightarrow> bool" where
  "py_isspace c =
     (let n = (of_char c :: nat)
      in (9 \<le> n \<and> n \<le> 13) \<or> (28 \<le> n \<and> n \<le> 32) \<or> n = 133 \<or> n = 160)"

definition py_lower_char :: "char \<Rightarrow> char" where
  "py_lower_char c =
     (let n = (of_char c :: nat)
      in if (65 \<le> n \<and> n \<le> 90) \<or> (192 \<le> n \<and> n \<le> 222 \<and> n \<noteq> 215)
         then char_of (n + 32) else c)"

definition py_lower :: "string \<Rightarrow> string" where
  "py_lower s = map py_lower_char s"

definition py_lstrip :: "string \<Rightarrow> string" where
  "py_lstrip s = dropWhile py_isspace s"

definition py_rstrip :: "string \<Rightarrow> string" where
  "py_rstrip s = rev (dropWhile py_isspace (rev s))"

definition py_strip :: "string \<Rightarrow> string" where
  "py_strip s = py_rstrip (py_lstrip s)"

definition startswith :: "string \<Rightarrow> string \<Rightarrow> bool" where
  "startswith s p = (take (length p) s = p)"

text \<open>\<open>target.replace(' ', '+')\<close>: only U+0020 is replaced.\<close>

definition replace_space_plus :: "string \<Rightarrow> string" where
  "replace_space_plus s = map (\<lambda>c. if c = CHR '' '' then CHR ''+'' else c) s"

fun join :: "string \<Rightarrow> string list \<Rightarrow> string" where
  "join sep [] = []"
| "join sep [s] = s"
| "join sep (s # t # ss) = s @ sep @ join sep (t # ss)"

text \<open>\<open>str(n)\<close> for a natural number: its decimal digits.\<close>

definition digit_char :: "nat \<Rightarrow> char" where
  "digit_char d = char_of (48 + d)"

fun str_nat :: "nat \<Rightarrow> string" where
  "str_nat n = (if n < 10 then [digit_char n] else str_nat (n div 10) @ [digit_char (n mod 10)])"

declare str_nat.simps [simp del]

section \<open>JSON values and Python exceptions\<close>

text \<open>
  What \<open>json.loads\<close> can return: \<open>None\<close>, a bool, an int, a (finite) float, a str, a
  list, or a dict with string keys, kept in insertion order.
\<close>

datatype json =
    JNull
  | JBool bool
  | JInt int
  | JFloat real
  | JStr string
  | JArr "json list"
  | JObj "(string \<times> json) list"

text \<open>The exceptions the program can meet. All of them are subclasses of \<open>Exception\<close>.\<close>

datatype exn =
    AttributeError
  | TypeError
  | KeyError
  | OSError string
  | ValueError string
  | BrowserError string

text \<open>\<open>not v\<close> is \<open>\<not> truthy v\<close>.\<close>

fun truthy :: "json \<Rightarrow> bool" where
  "truthy JNull = False"
| "truthy (JBool b) = b"
| "truthy (JInt n) = (n \<noteq> 0)"
| "truthy (JFloat r) = (r \<noteq> 0)"
| "truthy (JStr s) = (s \<noteq> [])"
| "truthy (JArr xs) = (xs \<noteq> [])"
| "truthy (JObj kvs) = (kvs \<noteq> [])"

text \<open>Iterating a value: a list gives its elements, a dict its keys, a str its characters.\<close>

fun py_iter :: "json \<Rightarrow> exn + json list" where
  "py_iter (JArr xs) = Inr xs"
| "py_iter (JObj kvs) = Inr (map (\<lambda>kv. JStr (fst kv)) kvs)"
| "py_iter (JStr s) = Inr (map (\<lambda>c. JStr [c]) s)"
| "py_iter JNull = Inl TypeError"
| "py_iter (JBool b) = Inl TypeError"
| "py_iter (JInt n) = Inl TypeError"
| "py_iter (JFloat r) = Inl TypeError"

text \<open>\<open>v[k]\<close> for a string key \<open>k\<close>: only a dict can be indexed by a string.\<close>

fun getitem :: "json \<Rightarrow> string \<Rightarrow> exn + json" where
  "getitem (JObj kvs) k = (case map_of kvs k of None \<Rightarrow> Inl KeyError | Some v \<Rightarrow> Inr v)"
| "getitem JNull k = Inl TypeError"
| "getitem (JBool b) k = Inl TypeError"
| "getitem (JInt n) k = Inl TypeError"
| "getitem (JFloat r) k = Inl TypeError"
| "getitem (JStr s) k = Inl TypeError"
| "getitem (JArr xs) k = Inl TypeError"

text \<open>\<open>v.append(x)\<close>: only a list has the method.\<close>

fun py_append :: "json \<Rightarrow> json \<Rightarrow> exn + json" where
  "py_append (JArr xs) x = Inr (JArr (xs @ [x]))"
| "py_append JNull x = Inl AttributeError"
| "py_append (JBool b) x = Inl AttributeError"
| "py_append (JInt n) x = Inl AttributeError"
| "py_append (JFloat r) x = Inl AttributeError"
| "py_append (JStr s) x = Inl AttributeError"
| "py_append (JObj kvs) x = Inl AttributeError"

section \<open>The process and its surroundings\<close>

text \<open>
  What stands at a path. No entry: \<open>stat\<close> fails with one of the errors
  \<open>Path.exists\<close> takes for "not there" (\<open>ENOENT\<close>, \<open>ENOTDIR\<close>, \<open>EBADF\<close>,
  \<open>ELOOP\<close>). \<open>Inaccessible\<close>: \<open>stat\<close> fails with any other \<open>OSError\<close> (a
  directory on the way that may not be searched, a name that is too long), which
  \<open>Path.exists\<close> raises again. \<open>Unreadable\<close>: the file is there and \<open>read_text\<close>
  raises. \<open>Contents\<close>: the file is there and holds a text. What the process does that
  can be observed from outside is recorded, in order, as events.
\<close>

datatype file_state = Inaccessible string | Unreadable | Contents string

datatype event =
    Print string
  | Speak string
  | SpeakDetached string
  | Open string

datatype wiki_result =
    Summary string
  | DisambiguationError "string list"
  | PageError
  | WikiFailure

text \<open>
  The surroundings of the process: which optional modules were imported, the credential,
  and the behaviour of every external call. An external call may depend on all that
  happened before it, so each one takes the events so far. \<open>json_dumps\<close> is
  \<open>json.dumps(data, indent=2)\<close>, \<open>json_loads\<close> is \<open>json.loads\<close>; \<open>Inl\<close> is the
  message of the exception raised. \<open>write_text\<close> answers \<open>None\<close> when the file now
  holds the text, and otherwise the message of the error and what is left at the path.
  \<open>py_format\<close> is \<open>format(v, '')\<close> on a value that is not a str.
\<close>

record env =
  home :: string
  have_tts :: bool
  have_listener :: bool
  have_openai :: bool
  have_wikipedia :: bool
  openai_key :: "string option"
  now_iso :: "event list \<Rightarrow> string"
  json_dumps :: "json \<Rightarrow> string + string"
  json_loads :: "string \<Rightarrow> string + json"
  write_text :: "event list \<Rightarrow> string \<Rightarrow> string \<Rightarrow> (string \<times> file_state option) option"
  browser_open :: "event list \<Rightarrow> string \<Rightarrow> string + bool"
  tts_say :: "event list \<Rightarrow> string \<Rightarrow> bool \<Rightarrow> string option"
  chat_completion :: "event list \<Rightarrow> (string \<times> string) list \<Rightarrow> string + string"
  wiki_summary :: "event list \<Rightarrow> string \<Rightarrow> wiki_result"
  py_format :: "json \<Rightarrow> string"

text \<open>
  The state: the file system, the module's \<open>todo_list\<close>, the assistant's
  \<open>chat_history\<close> (role and content of each turn) and \<open>running\<close>, and the events.
\<close>

record world =
  files :: "string \<Rightarrow> file_state option"
  todo_list :: json
  chat_history :: "(string \<times> string) list"
  running :: bool
  trace :: "event list"

definition emit :: "event \<Rightarrow> world \<Rightarrow> world" where
  "emit e w = w\<lparr>trace := trace w @ [e]\<rparr>"

definition TODO_FILE :: "env \<Rightarrow> string" where
  "TODO_FILE en = home en @ ''/.shree_voice/todo.json''"

section \<open>Data persistence\<close>

text \<open>\<open>path.exists()\<close>: true, false, or the \<open>OSError\<close> it does not swallow.\<close>

definition path_exists :: "world \<Rightarrow> string \<Rightarrow> exn + bool" where
  "path_exists w path =
     (case files w path of
        None \<Rightarrow> Inr False
      | Some (Inaccessible m) \<Rightarrow> Inl (OSError m)
      | Some Unreadable \<Rightarrow> Inr True
      | Some (Contents s) \<Rightarrow> Inr True)"

definition read_text :: "world \<Rightarrow> string \<Rightarrow> exn + string" where
  "read_text w path =
     (case files w path of
        None \<Rightarrow> Inl (OSError ''No such file or directory'')
      | Some (Inaccessible m) \<Rightarrow> Inl (OSError m)
      | Some Unreadable \<Rightarrow> Inl (OSError ''read failed'')
      | Some (Contents s) \<Rightarrow> Inr s)"

definition loads :: "env \<Rightarrow> string \<Rightarrow> exn + json" where
  "loads en s = (case json_loads en s of Inl m \<Rightarrow> Inl (ValueError m) | Inr v \<Rightarrow> Inr v)"

text \<open>
  \<open>load_json\<close>: \<open>path.exists()\<close> is called before the \<open>try\<close>, so what it raises
  leaves the function. The \<open>try\<close> covers the read and the parse, and
  \<open>except Exception\<close> answers the default for whatever they raise.
\<close>

definition load_json :: "env \<Rightarrow> world \<Rightarrow> string \<Rightarrow> json \<Rightarrow> exn + json" where
  "load_json en w path dflt =
     (case path_exists w path of
        Inl e \<Rightarrow> Inl e
      | Inr True \<Rightarrow>
          (case read_text w path of
             Inl e \<Rightarrow> Inr dflt
           | Inr s \<Rightarrow> (case loads en s of Inl e \<Rightarrow> Inr dflt | Inr v \<Rightarrow> Inr v))
      | Inr False \<Rightarrow> Inr dflt)"

text \<open>
  \<open>save_json\<close>: the \<open>try\<close> covers the serialisation and the write; the handler prints
  and the function returns \<open>None\<close> either way.
\<close>

definition save_json :: "env \<Rightarrow> string \<Rightarrow> json \<Rightarrow> world \<Rightarrow> world" where
  "save_json en path data w =
     (case json_dumps en data of
        Inl m \<Rightarrow> emit (Print (''Error saving '' @ path @ '': '' @ m)) w
      | Inr s \<Rightarrow>
          (case write_text en (trace w) path s of
             None \<Rightarrow> w\<lparr>files := (files w)(path := Some (Contents s))\<rparr>
           | Some (m, left) \<Rightarrow>
               emit (Print (''Error saving '' @ path @ '': '' @ m))
                 (w\<lparr>files := (files w)(path := left)\<rparr>)))"

text \<open>A save that wrote the file: the serialisation and the write both went through.\<close>

definition save_succeeds :: "env \<Rightarrow> string \<Rightarrow> json \<Rightarrow> world \<Rightarrow> bool" where
  "save_succeeds en path data w =
     (case json_dumps en data of
        Inl m \<Rightarrow> False
      | Inr s \<Rightarrow> write_text en (trace w) path s = None)"

section \<open>Speaker and Listener\<close>

text \<open>
  \<open>Speaker.say\<close>: the line is printed first. With an engine, \<open>tts_say\<close> stands for
  \<open>engine.say(text)\<close> followed by \<open>runAndWait()\<close> (\<open>wait\<close>) or by starting the
  detached thread; an exception there is printed and not raised again.
\<close>

definition say :: "env \<Rightarrow> string \<Rightarrow> bool \<Rightarrow> world \<Rightarrow> world" where
  "say en text wait w =
     (let w1 = emit (Print (''Shree: '' @ text)) w
      in if have_tts en then
           (case tts_say en (trace w1) text wait of
              Some m \<Rightarrow> emit (Print (''TTS error: '' @ m)) w1
            | None \<Rightarrow> emit (if wait then Speak text else SpeakDetached text) w1)
         else w1)"

text \<open>
  What one call of \<open>Listener.listen\<close> meets: no speech before the timeout, audio the
  recogniser cannot read, a failed request, or a transcript.
\<close>

datatype heard =
    WaitTimeout
  | UnknownValue
  | RequestError string
  | Recognized string

definition listen :: "heard \<Rightarrow> world \<Rightarrow> string option \<times> world" where
  "listen h w =
     (let w1 = emit (Print ''(Listening...)'') w
      in case h of
           WaitTimeout \<Rightarrow> (None, w1)
         | UnknownValue \<Rightarrow> (None, w1)
         | RequestError m \<Rightarrow> (None, emit (Print (''Speech API error: '' @ m)) w1)
         | Recognized t \<Rightarrow> (Some t, emit (Print (''User: '' @ t)) w1))"

section \<open>The assistant\<close>

definition shortcuts :: "(string \<times> string) list" where
  "shortcuts =
     [(''youtube'', ''https://www.youtube.com''),
      (''google'', ''https://www.google.com''),
      (''github'', ''https://github.com'')]"

definition SEARCH_PREFIX :: string where
  "SEARCH_PREFIX = ''https://www.google.com/search?q=''"

definition resolve_url :: "string \<Rightarrow> string" where
  "resolve_url target =
     (case map_of shortcuts (py_lower target) of
        Some u \<Rightarrow> u
      | None \<Rightarrow> SEARCH_PREFIX @ replace_space_plus target)"

text \<open>
  \<open>_open_website\<close>: \<open>Open url\<close> records the call \<open>webbrowser.open(url)\<close>. The call
  is not inside a \<open>try\<close>: what it raises leaves the method.
\<close>

definition open_website :: "env \<Rightarrow> string \<Rightarrow> world \<Rightarrow> (exn + string) \<times> world" where
  "open_website en target w =
     (let url = resolve_url target; w1 = emit (Open url) w
      in case browser_open en (trace w) url of
           Inl m \<Rightarrow> (Inl (BrowserError m), w1)
         | Inr b \<Rightarrow> (Inr (''Opening '' @ target), w1))"

definition todo_record :: "string \<Rightarrow> string \<Rightarrow> json" where
  "todo_record item stamp = JObj [(''item'', JStr item), (''added_at'', JStr stamp)]"

definition add_todo :: "env \<Rightarrow> string \<Rightarrow> world \<Rightarrow> (exn + string) \<times> world" where
  "add_todo en item w =
     (case py_append (todo_list w) (todo_record item (now_iso en (trace w))) of
        Inl e \<Rightarrow> (Inl e, w)
      | Inr l \<Rightarrow>
          (Inr (''Added to your todo list: '' @ item),
           save_json en (TODO_FILE en) l (w\<lparr>todo_list := l\<rparr>)))"

text \<open>\<open>f"{v}"\<close>: a str is itself, any other value goes through \<open>format\<close>.\<close>

definition format_value :: "env \<Rightarrow> json \<Rightarrow> string" where
  "format_value en v = (case v of JStr s \<Rightarrow> s | _ \<Rightarrow> py_format en v)"

text \<open>
  The generator of \<open>_list_todo\<close>, from index \<open>i\<close> on: \<open>join\<close> consumes it to the end,
  and the first element whose \<open>it['item']\<close> raises ends it.
\<close>

fun todo_entries :: "env \<Rightarrow> nat \<Rightarrow> json list \<Rightarrow> exn + string list" where
  "todo_entries en i [] = Inr []"
| "todo_entries en i (it # rest) =
     (case getitem it ''item'' of
        Inl e \<Rightarrow> Inl e
      | Inr v \<Rightarrow>
          (case todo_entries en (i + 1) rest of
             Inl e \<Rightarrow> Inl e
           | Inr ss \<Rightarrow> Inr ((str_nat (i + 1) @ ''. '' @ format_value en v) # ss)))"

text \<open>An element \<open>_list_todo\<close> can read: a dict that has the key \<open>item\<close>.\<close>

definition has_item :: "json \<Rightarrow> bool" where
  "has_item it = (case it of JObj kvs \<Rightarrow> map_of kvs ''item'' \<noteq> None | _ \<Rightarrow> False)"

definition EMPTY_MESSAGE :: string where
  "EMPTY_MESSAGE = ''Your todo list is empty.''"

definition list_todo :: "env \<Rightarrow> world \<Rightarrow> (exn + string) \<times> world" where
  "list_todo en w =
     (if \<not> truthy (todo_list w) then (Inr EMPTY_MESSAGE, w)
      else (case py_iter (todo_list w) of
              Inl e \<Rightarrow> (Inl e, w)
            | Inr xs \<Rightarrow>
                (case todo_entries en 0 xs of
                   Inl e \<Rightarrow> (Inl e, w)
                 | Inr ss \<Rightarrow> (Inr (''Here are your todos: '' @ join ''; '' ss), w))))"

text \<open>\<open>openai and self.openai_key\<close>: the module was imported and the key is a non-empty str.\<close>

definition ai_enabled :: "env \<Rightarrow> bool" where
  "ai_enabled en =
     (have_openai en \<and> (case openai_key en of None \<Rightarrow> False | Some k \<Rightarrow> k \<noteq> []))"

definition SYSTEM_PROMPT :: string where
  "SYSTEM_PROMPT = ''You are a friendly helpful AI assistant.''"

text \<open>
  The apology's apostrophe is U+2019, outside the character range of the model; the
  constant holds the three bytes of its UTF-8 form, as the source file does.
\<close>

definition APOLOGY :: string where
  "APOLOGY = ''Sorry, I couldn'' @ [CHR 0xE2, CHR 0x80, CHR 0x99] @ ''t find an answer.''"

text \<open>The second half of \<open>_answer_with_ai\<close>: the Wikipedia fallback and the last \<open>return\<close>.\<close>

definition wikipedia_answer :: "env \<Rightarrow> string \<Rightarrow> world \<Rightarrow> (exn + string) \<times> world" where
  "wikipedia_answer en prompt w =
     (if have_wikipedia en then
        (case wiki_summary en (trace w) prompt of
           Summary s \<Rightarrow> (Inr s, w)
         | DisambiguationError opts \<Rightarrow>
             (Inr (''Your query is ambiguous. Try one of these: '' @ join '', '' (take 5 opts)), w)
         | PageError \<Rightarrow> (Inr ''I couldn't find anything on Wikipedia.'', w)
         | WikiFailure \<Rightarrow> (Inr APOLOGY, w))
      else (Inr APOLOGY, w))"

text \<open>
  \<open>_answer_with_ai\<close>: \<open>chat_completion\<close> stands for the request and the lookup
  \<open>resp['choices'][0]['message']['content']\<close>, \<open>Inl\<close> when either raises. The user's
  turn is appended before the request and stays in the history when the request fails.
\<close>

definition answer_with_ai :: "env \<Rightarrow> string \<Rightarrow> world \<Rightarrow> (exn + string) \<times> world" where
  "answer_with_ai en prompt w =
     (if ai_enabled en then
        (let w1 = w\<lparr>chat_history := chat_history w @ [(''user'', prompt)]\<rparr>
         in case chat_completion en (trace w1) ((''system'', SYSTEM_PROMPT) # chat_history w1) of
              Inr content \<Rightarrow>
                (let reply = py_strip content
                 in (Inr reply, w1\<lparr>chat_history := chat_history w1 @ [(''assistant'', reply)]\<rparr>))
            | Inl m \<Rightarrow> wikipedia_answer en prompt (emit (Print (''OpenAI error: '' @ m)) w1))
      else wikipedia_answer en prompt w)"

definition GREETING_REPLY :: string where
  "GREETING_REPLY = ''Hello! How are you today?''"

text \<open>
  \<open>handle_command\<close>: the tests read \<open>lower\<close>, the lower-cased and stripped text; the
  slices \<open>text[5:]\<close> and \<open>text[9:]\<close> are taken from the text as it came.
\<close>

definition handle_command :: "env \<Rightarrow> string \<Rightarrow> world \<Rightarrow> (exn + string) \<times> world" where
  "handle_command en text w =
     (let lower = py_strip (py_lower text)
      in if lower \<in> set [''hi'', ''hello'', ''hey''] then (Inr GREETING_REPLY, w)
         else if startswith lower ''open '' then open_website en (py_strip (drop 5 text)) w
         else if startswith lower ''add todo '' then add_todo en (py_strip (drop 9 text)) w
         else if lower \<in> set [''list todo'', ''show todo'', ''todos''] then list_todo en w
         else answer_with_ai en text w)"

section \<open>The main loop\<close>

definition HELLO :: string where
  "HELLO = ''Hello! I'm your assistant. You can just start talking to me.''"

definition UNAVAILABLE :: string where
  "UNAVAILABLE = ''Speech recognition isn't available.''"

definition FAREWELL :: string where
  "FAREWELL = ''Goodbye! Have a great day!''"

definition is_exit :: "string \<Rightarrow> bool" where
  "is_exit text = (py_strip (py_lower text) \<in> set [''exit'', ''quit'', ''stop'', ''goodbye''])"

text \<open>
  How a run of the loop ends on a finite script of what the microphone hears:
  \<open>run\<close> returned, an exception left it, or the script is used up and the loop is
  still listening.
\<close>

datatype outcome = Returned | Raised exn | StillListening

text \<open>
  The \<open>while self.running\<close> loop of \<open>run\<close>, one \<open>listen\<close> per element of the script.
  The result holds the part of the script that was never listened to.
\<close>

fun main_loop :: "env \<Rightarrow> heard list \<Rightarrow> world \<Rightarrow> outcome \<times> heard list \<times> world" where
  "main_loop en [] w = (if running w then (StillListening, [], w) else (Returned, [], w))"
| "main_loop en (h # hs) w =
     (if \<not> running w then (Returned, h # hs, w)
      else (case listen h w of
              (None, w1) \<Rightarrow> main_loop en hs w1
            | (Some text, w1) \<Rightarrow>
                if text = [] then main_loop en hs w1
                else if is_exit text then
                  (Returned, hs, (say en FAREWELL True w1)\<lparr>running := False\<rparr>)
                else (case handle_command en text w1 of
                        (Inl e, w2) \<Rightarrow> (Raised e, hs, w2)
                      | (Inr response, w2) \<Rightarrow> main_loop en hs (say en response True w2))))"

definition run :: "env \<Rightarrow> heard list \<Rightarrow> world \<Rightarrow> outcome \<times> heard list \<times> world" where
  "run en script w =
     (let w1 = say en HELLO True w
      in if \<not> have_listener en then (Returned, script, say en UNAVAILABLE True w1)
         else main_loop en script w1)"

section \<open>The JSON text of a value\<close>

text \<open>
  What the \<open>json\<close> module of the standard library does with the values the program
  stores, written out so that it can be run. \<open>json_encode\<close> is
  \<open>json.dumps(v, indent=2)\<close> with the defaults the program leaves in place
  (\<open>ensure_ascii=True\<close>, separators \<open>,\<close> and \<open>: \<close>): inside a string, the
  quotation mark and the backslash take a backslash, the five control characters with
  a short escape (backspace, form feed, line feed, carriage return, tab) use it, the
  other characters from U+0020 to U+007E stand for themselves, and every other one is
  written as a backslash, \<open>u00\<close> and its two lower-case hexadecimal digits. Numbers
  are left out of the model: \<open>None\<close> is answered for a value that holds one.
\<close>

definition hex_digit :: "nat \<Rightarrow> char" where
  "hex_digit d = (if d < 10 then char_of (48 + d) else char_of (87 + d))"

definition escape_char :: "char \<Rightarrow> string" where
  "escape_char c =
     (let n = (of_char c :: nat)
      in if c = CHR 0x22 then [CHR 0x5C, CHR 0x22]
         else if c = CHR 0x5C then [CHR 0x5C, CHR 0x5C]
         else if c = CHR 0x0A then [CHR 0x5C, CHR ''n'']
         else if c = CHR 0x0D then [CHR 0x5C, CHR ''r'']
         else if c = CHR 0x09 then [CHR 0x5C, CHR ''t'']
         else if c = CHR 0x08 then [CHR 0x5C, CHR ''b'']
         else if c = CHR 0x0C then [CHR 0x5C, CHR ''f'']
         else if 32 \<le> n \<and> n \<le> 126 then [c]
         else [CHR 0x5C, CHR ''u'', CHR ''0'', CHR ''0'', hex_digit (n div 16), hex_digit (n mod 16)])"

definition encode_string :: "string \<Rightarrow> string" where
  "encode_string s = CHR 0x22 # concat (map escape_char s) @ [CHR 0x22]"

text \<open>With \<open>indent=2\<close> every element starts a line, two spaces deeper per level.\<close>

definition newline_indent :: "nat \<Rightarrow> string" where
  "newline_indent lvl = CHR 0x0A # replicate (2 * lvl) CHR '' ''"

fun encode :: "nat \<Rightarrow> json \<Rightarrow> string option" where
  "encode lvl JNull = Some ''null''"
| "encode lvl (JBool b) = Some (if b then ''true'' else ''false'')"
| "encode lvl (JInt i) = None"
| "encode lvl (JFloat r) = None"
| "encode lvl (JStr s) = Some (encode_string s)"
| "encode lvl (JArr vs) =
     (if vs = [] then Some ''[]''
      else (case those (map (encode (Suc lvl)) vs) of
              None \<Rightarrow> None
            | Some ts \<Rightarrow>
                Some (''['' @ newline_indent (Suc lvl)
                      @ join ('','' @ newline_indent (Suc lvl)) ts
                      @ newline_indent lvl @ '']'')))"
| "encode lvl (JObj kvs) =
     (if kvs = [] then Some ''{}''
      else (case those (map (\<lambda>(k, v). map_option (\<lambda>t. encode_string k @ '': '' @ t)
                                             (encode (Suc lvl) v)) kvs) of
              None \<Rightarrow> None
            | Some ts \<Rightarrow>
                Some (''{'' @ newline_indent (Suc lvl)
                      @ join ('','' @ newline_indent (Suc lvl)) ts
                      @ newline_indent lvl @ ''}'')))"

definition json_encode :: "json \<Rightarrow> string option" where
  "json_encode v = encode 0 v"

text \<open>
  \<open>json_decode\<close> is \<open>json.loads\<close>. White space is space, tab, line feed and
  carriage return. In a string a raw character below U+0020 is refused; a backslash
  is followed by a quotation mark, a backslash, a slash, one of \<open>b\<close>, \<open>f\<close>, \<open>n\<close>,
  \<open>r\<close>, \<open>t\<close>, or \<open>u\<close> and four hexadecimal digits of either case. \<open>None\<close>
  stands for the \<open>JSONDecodeError\<close> and also for a document outside the model: one
  that holds a number or an escape above U+00FF.
\<close>

definition is_ws :: "char \<Rightarrow> bool" where
  "is_ws c = (c = CHR '' '' \<or> c = CHR 0x09 \<or> c = CHR 0x0A \<or> c = CHR 0x0D)"

definition skip_ws :: "string \<Rightarrow> string" where
  "skip_ws s = dropWhile is_ws s"

definition unhex :: "char \<Rightarrow> nat option" where
  "unhex c =
     (let n = (of_char c :: nat)
      in if 48 \<le> n \<and> n \<le> 57 then Some (n - 48)
         else if 97 \<le> n \<and> n \<le> 102 then Some (n - 87)
         else if 65 \<le> n \<and> n \<le> 70 then Some (n - 55)
         else None)"

definition unescape :: "char \<Rightarrow> char option" where
  "unescape c =
     (if c = CHR 0x22 then Some (CHR 0x22)
      else if c = CHR 0x5C then Some (CHR 0x5C)
      else if c = CHR ''/'' then Some (CHR ''/'')
      else if c = CHR ''b'' then Some (CHR 0x08)
      else if c = CHR ''f'' then Some (CHR 0x0C)
      else if c = CHR ''n'' then Some (CHR 0x0A)
      else if c = CHR ''r'' then Some (CHR 0x0D)
      else if c = CHR ''t'' then Some (CHR 0x09)
      else None)"

definition unicode_escape :: "char \<Rightarrow> char \<Rightarrow> char \<Rightarrow> char \<Rightarrow> char option" where
  "unicode_escape a b c d =
     (case (unhex a, unhex b, unhex c, unhex d) of
        (Some h3, Some h2, Some h1, Some h0) \<Rightarrow>
          (if h3 = 0 \<and> h2 = 0 then Some (char_of (16 * h1 + h0)) else None)
      | _ \<Rightarrow> None)"

text \<open>
  The characters of a string after its opening quote, up to the closing quote, and
  the text after it.
\<close>

definition push_char :: "char option \<Rightarrow> (string \<times> string) option \<Rightarrow> (string \<times> string) option" where
  "push_char co r =
     (case co of
        None \<Rightarrow> None
      | Some c \<Rightarrow> (case r of None \<Rightarrow> None | Some (t, rest) \<Rightarrow> Some (c # t, rest)))"

fun scanstring :: "string \<Rightarrow> (string \<times> string) option" where
  "scanstring [] = None"
| "scanstring [c] = (if c = CHR 0x22 then Some ([], []) else None)"
| "scanstring (c # e # s) =
     (if c = CHR 0x22 then Some ([], e # s)
      else if c = CHR 0x5C then
        (if e = CHR ''u'' then
           (case s of
              a # b # x # y # sa \<Rightarrow> push_char (unicode_escape a b x y) (scanstring sa)
            | _ \<Rightarrow> None)
         else push_char (unescape e) (scanstring s))
      else if (of_char c :: nat) < 32 then None
      else push_char (Some c) (scanstring (e # s)))"

text \<open>
  An object becomes a dict: a key met again keeps its place and takes the later value.
\<close>

fun dict_update :: "string \<Rightarrow> json \<Rightarrow> (string \<times> json) list \<Rightarrow> (string \<times> json) list" where
  "dict_update k v [] = [(k, v)]"
| "dict_update k v ((ka, va) # kvs) =
     (if k = ka then (k, v) # kvs else (ka, va) # dict_update k v kvs)"

definition dict_of :: "(string \<times> json) list \<Rightarrow> (string \<times> json) list" where
  "dict_of kvs = foldl (\<lambda>d (k, v). dict_update k v d) [] kvs"

text \<open>
  The scanner proper, with its three mutually recursive parts: a value, the elements
  of an array after \<open>[\<close>, the members of an object after \<open>{\<close>. The first argument
  bounds the depth of the calls; \<open>json_decode\<close> starts with more than the length of
  the text. White space is allowed around every token, and nothing but white space
  after the value.
\<close>

fun scan_once :: "nat \<Rightarrow> string \<Rightarrow> (json \<times> string) option"
  and scan_array :: "nat \<Rightarrow> string \<Rightarrow> (json list \<times> string) option"
  and scan_object :: "nat \<Rightarrow> string \<Rightarrow> ((string \<times> json) list \<times> string) option"
where
  "scan_once 0 s = None"
| "scan_once (Suc n) s =
     (case s of
        [] \<Rightarrow> None
      | c # r \<Rightarrow>
          (if c = CHR 0x22 then
             (case scanstring r of None \<Rightarrow> None | Some (t, ra) \<Rightarrow> Some (JStr t, ra))
           else if c = CHR ''['' then
             (case skip_ws r of
                [] \<Rightarrow> None
              | ca # ra \<Rightarrow>
                  (if ca = CHR '']'' then Some (JArr [], ra)
                   else (case scan_array n (ca # ra) of
                           None \<Rightarrow> None
                         | Some (vs, rb) \<Rightarrow> Some (JArr vs, rb))))
           else if c = CHR ''{'' then
             (case skip_ws r of
                [] \<Rightarrow> None
              | ca # ra \<Rightarrow>
                  (if ca = CHR ''}'' then Some (JObj [], ra)
                   else (case scan_object n (ca # ra) of
                           None \<Rightarrow> None
                         | Some (kvs, rb) \<Rightarrow> Some (JObj (dict_of kvs), rb))))
           else if startswith s ''null'' then Some (JNull, drop 4 s)
           else if startswith s ''true'' then Some (JBool True, drop 4 s)
           else if startswith s ''false'' then Some (JBool False, drop 5 s)
           else None))"
| "scan_array 0 s = None"
| "scan_array (Suc n) s =
     (case scan_once n s of
        None \<Rightarrow> None
      | Some (v, r) \<Rightarrow>
          (case skip_ws r of
             [] \<Rightarrow> None
           | c # ra \<Rightarrow>
               (if c = CHR '']'' then Some ([v], ra)
                else if c = CHR '','' then
                  (case scan_array n (skip_ws ra) of
                     None \<Rightarrow> None
                   | Some (vs, rb) \<Rightarrow> Some (v # vs, rb))
                else None)))"
| "scan_object 0 s = None"
| "scan_object (Suc n) s =
     (case s of
        [] \<Rightarrow> None
      | q # r \<Rightarrow>
          (if q \<noteq> CHR 0x22 then None
           else (case scanstring r of
                   None \<Rightarrow> None
                 | Some (k, r1) \<Rightarrow>
                     (case skip_ws r1 of
                        [] \<Rightarrow> None
                      | c # r2 \<Rightarrow>
                          (if c \<noteq> CHR '':'' then None
                           else (case scan_once n (skip_ws r2) of
                                   None \<Rightarrow> None
                                 | Some (v, r3) \<Rightarrow>
                                     (case skip_ws r3 of
                                        [] \<Rightarrow> None
                                      | d # r4 \<Rightarrow>
                                          (if d = CHR ''}'' then Some ([(k, v)], r4)
                                           else if d = CHR '','' then
                                             (case scan_object n (skip_ws r4) of
                                                None \<Rightarrow> None
                                              | Some (kvs, r5) \<Rightarrow> Some ((k, v) # kvs, r5))
                                           else None))))))))"

definition json_decode :: "string \<Rightarrow> json option" where
  "json_decode s =
     (case scan_once (Suc (length s)) (skip_ws s) of
        None \<Rightarrow> None
      | Some (v, r) \<Rightarrow> (if skip_ws r = [] then Some v else None))"

text \<open>
  The todo sequence the program builds: a list of records, each with the item and the
  time it was added, both of them strings.
\<close>

definition todo_sequence :: "(string \<times> string) list \<Rightarrow> json" where
  "todo_sequence its = JArr (map (\<lambda>(item, stamp). todo_record item stamp) its)"

text \<open>
  The library does on a value what the model does: \<open>json.dumps\<close> returns the model's
  text, and \<open>json.loads\<close> on that text returns what the model reads there.
\<close>

definition library_follows_model :: "env \<Rightarrow> json \<Rightarrow> bool" where
  "library_follows_model en v =
     (case json_encode v of
        None \<Rightarrow> False
      | Some s \<Rightarrow>
          json_dumps en v = Inr s
          \<and> (case json_decode s of None \<Rightarrow> False | Some u \<Rightarrow> json_loads en s = Inr u))"

section \<open>A concrete setting\<close>

text \<open>
  One setting in which the definitions can be run: no chat and no lookup backend, a
  browser and a disk that work, and the codec on the one document the program starts
  from, the empty list (\<open>json.dumps([], indent=2)\<close> is \<open>[]\<close>).
\<close>

definition demo_dumps :: "json \<Rightarrow> string + string" where
  "demo_dumps v = (if v = JArr [] then Inr ''[]'' else Inl ''not serializable'')"

definition demo_loads :: "string \<Rightarrow> string + json" where
  "demo_loads s = (if s = ''[]'' then Inr (JArr []) else Inl ''Expecting value'')"

definition demo_env :: env where
  "demo_env =
     \<lparr>home = ''/home/user'',
      have_tts = True,
      have_listener = True,
      have_openai = False,
      have_wikipedia = False,
      openai_key = None,
      now_iso = (\<lambda>h. ''2024-01-01T00:00:00''),
      json_dumps = demo_dumps,
      json_loads = demo_loads,
      write_text = (\<lambda>h path s. None),
      browser_open = (\<lambda>h url. Inr True),
      tts_say = (\<lambda>h text wait. None),
      chat_completion = (\<lambda>h msgs. Inl ''no connection''),
      wiki_summary = (\<lambda>h prompt. WikiFailure),
      py_format = (\<lambda>v. ''?'')\<rparr>"

definition demo_world :: world where
  "demo_world =
     \<lparr>files = (\<lambda>p. None), todo_list = JArr [], chat_history = [], running = True, trace = []\<rparr>"

text \<open>The same setting with a \<open>json\<close> module that is the model of it.\<close>

definition model_dumps :: "json \<Rightarrow> string + string" where
  "model_dumps v = (case json_encode v of None \<Rightarrow> Inl ''outside the model'' | Some s \<Rightarrow> Inr s)"

definition model_loads :: "string \<Rightarrow> string + json" where
  "model_loads s = (case json_decode s of None \<Rightarrow> Inl ''Expecting value'' | Some v \<Rightarrow> Inr v)"

definition codec_env :: env where
  "codec_env = demo_env\<lparr>json_dumps := model_dumps, json_loads := model_loads\<rparr>"

section \<open>Persistence: loading\<close>

text \<open>
  Where \<open>path.exists()\<close> answers: \<open>load_json(path, default)\<close> returns \<open>default\<close> when
  it answers that nothing is at the path, when reading the file raises, and when the text
  read does not parse.
\<close>

theorem load_json_returns_default:
  assumes "files w path = None \<or> files w path = Some Unreadable \<or>
           (\<exists>s m. files w path = Some (Contents s) \<and> json_loads en s = Inl m)"
  shows "load_json en w path dflt = Inr dflt"
  using assms
  by (auto simp: load_json_def path_exists_def read_text_def loads_def)

theorem load_json_returns_default_witness:
  "load_json demo_env demo_world ''todo.json'' (JArr []) = Inr (JArr [])
   \<and> load_json demo_env (demo_world\<lparr>files := (\<lambda>p. Some Unreadable)\<rparr>) ''todo.json'' (JInt 7)
       = Inr (JInt 7)
   \<and> load_json demo_env (demo_world\<lparr>files := (\<lambda>p. Some (Contents ''[{''))\<rparr>) ''todo.json'' (JInt 7)
       = Inr (JInt 7)"
proof -
  have a: "files demo_world ''todo.json'' = None"
    by (simp add: demo_world_def)
  have b: "files (demo_world\<lparr>files := (\<lambda>p. Some Unreadable)\<rparr>) ''todo.json'' = Some Unreadable"
    by simp
  have c: "\<exists>s m. files (demo_world\<lparr>files := (\<lambda>p. Some (Contents ''[{''))\<rparr>) ''todo.json''
             = Some (Contents s) \<and> json_loads demo_env s = Inl m"
    by (simp add: demo_env_def demo_loads_def)
  show ?thesis
    using load_json_returns_default [of demo_world "''todo.json''" demo_env "JArr []"]
      load_json_returns_default
        [of "demo_world\<lparr>files := (\<lambda>p. Some Unreadable)\<rparr>" "''todo.json''" demo_env "JInt 7"]
      load_json_returns_default
        [of "demo_world\<lparr>files := (\<lambda>p. Some (Contents ''[{''))\<rparr>" "''todo.json''" demo_env "JInt 7"]
      a b c
    by blast
qed

lemma load_json_exists_raises:
  "files w path = Some (Inaccessible m) \<Longrightarrow> load_json en w path dflt = Inl (OSError m)"
  by (simp add: load_json_def path_exists_def)

text \<open>
  C7. The claim is that \<open>load_json(path, default)\<close> returns \<open>default\<close> and never raises
  when the file does not exist, does not parse or cannot be read. The read and the parse
  are inside the \<open>try\<close>, the test \<open>path.exists()\<close> is not: where \<open>stat\<close> fails with
  an \<open>OSError\<close> that \<open>exists\<close> does not take for "not there", \<open>load_json\<close> ends with
  that error. So it is for the todo file when its directory may not be searched: no
  default is returned.
\<close>

theorem load_json_raises_from_exists:
  "load_json demo_env
     (demo_world\<lparr>files := (\<lambda>p. Some (Inaccessible ''[Errno 13] Permission denied''))\<rparr>)
     (TODO_FILE demo_env) (JArr [])
   = Inl (OSError ''[Errno 13] Permission denied'')"
  by (simp add: load_json_def path_exists_def)

section \<open>The JSON text of a todo sequence reads back\<close>

text \<open>
  Reading a string: each escaped character gives the character back, so the scanner
  returns the string that was written and stops after its closing quote.
\<close>

lemma scanstring_quote: "scanstring (CHR 0x22 # r) = Some ([], r)"
  by (cases r) simp_all

lemma scanstring_plain:
  "c \<noteq> CHR 0x22 \<Longrightarrow> c \<noteq> CHR 0x5C \<Longrightarrow> 32 \<le> (of_char c :: nat)
   \<Longrightarrow> scanstring (c # r) = push_char (Some c) (scanstring r)"
  by (cases r) (simp_all add: push_char_def)

lemma scanstring_escape:
  "e \<noteq> CHR ''u'' \<Longrightarrow> scanstring (CHR 0x5C # e # r) = push_char (unescape e) (scanstring r)"
  by simp

lemma scanstring_unicode:
  "scanstring (CHR 0x5C # CHR ''u'' # a # b # x # y # r)
   = push_char (unicode_escape a b x y) (scanstring r)"
  by simp

lemma unhex_hex_digit: "d < 16 \<Longrightarrow> unhex (hex_digit d) = Some d"
  by (simp add: unhex_def hex_digit_def Let_def)

lemma unhex_zero: "unhex CHR ''0'' = Some 0"
  by (simp add: unhex_def)

lemma unicode_escape_hex:
  "unicode_escape CHR ''0'' CHR ''0'' (hex_digit (of_char c div 16)) (hex_digit (of_char c mod 16))
   = Some c"
proof -
  have lt: "(of_char c :: nat) < 256" by simp
  then have d: "(of_char c :: nat) div 16 < 16" by arith
  have m: "(of_char c :: nat) mod 16 < 16" by simp
  have "16 * ((of_char c :: nat) div 16) + of_char c mod 16 = of_char c" by simp
  then show ?thesis
    by (simp add: unicode_escape_def unhex_zero unhex_hex_digit [OF d] unhex_hex_digit [OF m])
qed

lemma scanstring_escape_char:
  "scanstring (escape_char c @ r) = push_char (Some c) (scanstring r)"
proof -
  consider (special) "c \<in> {CHR 0x22, CHR 0x5C, CHR 0x0A, CHR 0x0D, CHR 0x09, CHR 0x08, CHR 0x0C}"
    | (plain) "c \<notin> {CHR 0x22, CHR 0x5C, CHR 0x0A, CHR 0x0D, CHR 0x09, CHR 0x08, CHR 0x0C}"
        "32 \<le> (of_char c :: nat)" "(of_char c :: nat) \<le> 126"
    | (low) "c \<notin> {CHR 0x22, CHR 0x5C, CHR 0x0A, CHR 0x0D, CHR 0x09, CHR 0x08, CHR 0x0C}"
        "(of_char c :: nat) < 32"
    | (high) "c \<notin> {CHR 0x22, CHR 0x5C, CHR 0x0A, CHR 0x0D, CHR 0x09, CHR 0x08, CHR 0x0C}"
        "126 < (of_char c :: nat)"
    by fastforce
  then show ?thesis
  proof cases
    case special
    then show ?thesis
      by (auto simp: escape_char_def unescape_def)
  next
    case plain
    then show ?thesis
      by (simp add: escape_char_def scanstring_plain)
  next
    case low
    then show ?thesis
      by (simp add: escape_char_def Let_def scanstring_unicode unicode_escape_hex
               del: scanstring.simps)
  next
    case high
    then show ?thesis
      by (simp add: escape_char_def Let_def scanstring_unicode unicode_escape_hex
               del: scanstring.simps)
  qed
qed

lemma scanstring_escaped:
  "scanstring (concat (map escape_char s) @ CHR 0x22 # r) = Some (s, r)"
  by (induction s) (simp_all add: scanstring_quote scanstring_escape_char push_char_def
                              del: scanstring.simps)

lemma scan_once_string:
  "scan_once (Suc n) (encode_string s @ r) = Some (JStr s, r)"
  by (simp add: encode_string_def scanstring_escaped del: scanstring.simps)

lemma skip_ws_spaces: "skip_ws (replicate k CHR '' '' @ x) = skip_ws x"
  by (induction k) (simp_all add: skip_ws_def is_ws_def)

lemma skip_ws_newline_indent: "skip_ws (newline_indent k @ x) = skip_ws x"
proof -
  have "skip_ws (newline_indent k @ x) = skip_ws (replicate (2 * k) CHR '' '' @ x)"
    by (simp add: newline_indent_def skip_ws_def is_ws_def)
  then show ?thesis
    by (simp only: skip_ws_spaces)
qed

lemma skip_ws_stop: "\<not> is_ws c \<Longrightarrow> skip_ws (c # x) = c # x"
  by (simp add: skip_ws_def)

lemma skip_ws_skip: "is_ws c \<Longrightarrow> skip_ws (c # x) = skip_ws x"
  by (simp add: skip_ws_def)

lemma encode_string_head: "encode_string s @ r = CHR 0x22 # concat (map escape_char s) @ CHR 0x22 # r"
  by (simp add: encode_string_def)

lemma skip_ws_string: "skip_ws (encode_string s @ r) = encode_string s @ r"
  by (simp add: encode_string_def skip_ws_def is_ws_def)

lemma scan_object_last:
  "scan_object (Suc (Suc n))
     (encode_string key @ '': '' @ encode_string val @ newline_indent k @ CHR ''}'' # r)
   = Some ([(key, JStr val)], r)"
proof -
  have "scan_object (Suc (Suc n))
          (CHR 0x22 # concat (map escape_char key) @ CHR 0x22 #
             CHR '':'' # CHR '' '' # encode_string val @ newline_indent k @ CHR ''}'' # r)
        = Some ([(key, JStr val)], r)"
    by (simp add: scanstring_escaped skip_ws_stop skip_ws_skip skip_ws_string
                  skip_ws_newline_indent scan_once_string is_ws_def
             del: scanstring.simps scan_once.simps)
  then show ?thesis
    by (simp add: encode_string_head)
qed

lemma scan_object_more:
  assumes "scan_object (Suc n) y = Some (kvs, r)" and "skip_ws y = y"
  shows "scan_object (Suc (Suc n))
           (encode_string key @ '': '' @ encode_string val @ '','' @ newline_indent k @ y)
         = Some ((key, JStr val) # kvs, r)"
proof -
  have "scan_object (Suc (Suc n))
          (CHR 0x22 # concat (map escape_char key) @ CHR 0x22 #
             CHR '':'' # CHR '' '' # encode_string val @ CHR '','' # newline_indent k @ y)
        = Some ((key, JStr val) # kvs, r)"
    apply (subst scan_object.simps(2))
    apply (simp add: assms scanstring_escaped skip_ws_stop skip_ws_skip skip_ws_string
                     skip_ws_newline_indent scan_once_string is_ws_def
                del: scanstring.simps scan_once.simps scan_object.simps)
    done
  then show ?thesis
    by (simp add: encode_string_head)
qed


lemma encode_record:
  "encode lvl (todo_record item stamp)
   = Some (CHR ''{'' # newline_indent (Suc lvl) @ encode_string ''item'' @ '': ''
           @ encode_string item @ '','' @ newline_indent (Suc lvl)
           @ encode_string ''added_at'' @ '': '' @ encode_string stamp
           @ newline_indent lvl @ ''}'')"
  by (simp add: todo_record_def)

lemma scan_once_record:
  assumes "encode lvl (todo_record item stamp) = Some x"
  shows "scan_once (Suc (Suc (Suc (Suc n)))) (x @ r) = Some (todo_record item stamp, r)"
proof -
  let ?last = "encode_string ''added_at'' @ '': '' @ encode_string stamp
               @ newline_indent lvl @ CHR ''}'' # r"
  have x: "x @ r = CHR ''{'' # newline_indent (Suc lvl) @ encode_string ''item'' @ '': ''
             @ encode_string item @ '','' @ newline_indent (Suc lvl) @ ?last"
    using assms by (simp add: encode_record)
  have l: "scan_object (Suc (Suc n)) ?last = Some ([(''added_at'', JStr stamp)], r)"
    by (rule scan_object_last)
  have w: "skip_ws ?last = ?last"
    by (rule skip_ws_string)
  have m: "scan_object (Suc (Suc (Suc n)))
             (encode_string ''item'' @ '': '' @ encode_string item @ '',''
              @ newline_indent (Suc lvl) @ ?last)
           = Some ([(''item'', JStr item), (''added_at'', JStr stamp)], r)"
    by (rule scan_object_more [OF l w])
  have d: "dict_of [(''item'', JStr item), (''added_at'', JStr stamp)]
           = [(''item'', JStr item), (''added_at'', JStr stamp)]"
    by (simp add: dict_of_def)
  have h: "skip_ws (newline_indent (Suc lvl) @ encode_string ''item'' @ '': ''
             @ encode_string item @ '','' @ newline_indent (Suc lvl) @ ?last)
           = CHR 0x22 # concat (map escape_char ''item'') @ CHR 0x22 # '': ''
             @ encode_string item @ '','' @ newline_indent (Suc lvl) @ ?last"
    by (simp only: skip_ws_newline_indent skip_ws_string) (simp only: encode_string_head)
  have m': "scan_object (Suc (Suc (Suc n)))
             (CHR 0x22 # concat (map escape_char ''item'') @ CHR 0x22 # '': ''
              @ encode_string item @ '','' @ newline_indent (Suc lvl) @ ?last)
           = Some ([(''item'', JStr item), (''added_at'', JStr stamp)], r)"
    using m by (simp only: encode_string_head)
  show ?thesis
    unfolding x
    apply (subst scan_once.simps(2))
    apply (simp only: h m' d list.case option.case prod.case todo_record_def)
    apply simp
    done
qed


lemma join_cons: "ts \<noteq> [] \<Longrightarrow> join sep (t # ts) = t @ sep @ join sep ts"
  by (cases ts) simp_all

lemma those_records:
  "those (map (encode lvl) (map (\<lambda>(item, stamp). todo_record item stamp) its))
   = Some (map (\<lambda>(item, stamp). the (encode lvl (todo_record item stamp))) its)"
  by (induction its) (auto simp: encode_record)

lemma skip_ws_record:
  "encode lvl (todo_record item stamp) = Some x \<Longrightarrow> skip_ws (x @ r) = x @ r"
  by (auto simp: encode_record skip_ws_stop is_ws_def)

lemma scan_array_records:
  "its \<noteq> [] \<Longrightarrow>
   scan_array (Suc (Suc (Suc (Suc (length its + m)))))
     (join (CHR '','' # newline_indent k)
        (map (\<lambda>(item, stamp). the (encode k (todo_record item stamp))) its)
      @ newline_indent l @ CHR '']'' # r)
   = Some (map (\<lambda>(item, stamp). todo_record item stamp) its, r)"
proof (induction its rule: list_nonempty_induct)
  case (single x)
  obtain item stamp where x: "x = (item, stamp)" by (cases x)
  have e: "encode k (todo_record item stamp) = Some (the (encode k (todo_record item stamp)))"
    by (simp add: encode_record)
  show ?case
    apply (simp only: x list.map prod.case join.simps list.size)
    apply (subst scan_array.simps(2))
    apply (simp add: scan_once_record [OF e] skip_ws_newline_indent skip_ws_stop is_ws_def
                del: scan_once.simps scan_array.simps)
    done
next
  case (cons x xs)
  obtain item stamp where x: "x = (item, stamp)" by (cases x)
  have e: "encode k (todo_record item stamp) = Some (the (encode k (todo_record item stamp)))"
    by (simp add: encode_record)
  let ?rest = "join (CHR '','' # newline_indent k)
                 (map (\<lambda>(item, stamp). the (encode k (todo_record item stamp))) xs)
               @ newline_indent l @ CHR '']'' # r"
  obtain y ys where xs: "xs = y # ys" using cons.hyps by (cases xs) auto
  obtain yi ys' where y: "y = (yi, ys')" by (cases y)
  have w: "skip_ws ?rest = ?rest"
  proof (cases ys)
    case Nil
    then show ?thesis
      by (simp add: xs y encode_record skip_ws_stop is_ws_def)
  next
    case (Cons z zs)
    then show ?thesis
      by (simp add: xs y encode_record skip_ws_stop is_ws_def)
  qed
  have j: "join (CHR '','' # newline_indent k)
             (map (\<lambda>(item, stamp). the (encode k (todo_record item stamp))) (x # xs))
           @ newline_indent l @ CHR '']'' # r
           = the (encode k (todo_record item stamp)) @ CHR '','' # newline_indent k @ ?rest"
    using cons.hyps by (simp add: x join_cons)
  show ?case
    apply (simp only: j)
    apply (simp only: list.size list.map x prod.case add_Suc)
    apply (subst scan_array.simps(2))
    apply (simp add: scan_once_record [OF e] skip_ws_newline_indent skip_ws_stop is_ws_def w
                     cons.IH
                del: scan_once.simps scan_array.simps)
    done
qed


lemma records_text_head:
  assumes "its \<noteq> []"
  shows "\<exists>z. join sep (map (\<lambda>(item, stamp). the (encode k (todo_record item stamp))) its) @ t
             = CHR ''{'' # z"
proof -
  obtain x xs where its: "its = x # xs" using assms by (cases its) auto
  obtain item stamp where x: "x = (item, stamp)" by (cases x)
  show ?thesis
    by (cases xs) (simp_all add: its x encode_record)
qed

lemma length_join:
  "\<forall>t \<in> set ts. t \<noteq> [] \<Longrightarrow> length ts \<le> length (join sep ts)"
proof (induction sep ts rule: join.induct)
  case (1 sep)
  then show ?case by simp
next
  case (2 sep s)
  then show ?case by (cases s) simp_all
next
  case (3 sep s t ss)
  then have "s \<noteq> []" by simp
  then have "1 \<le> length s" by (cases s) simp_all
  moreover have "length (t # ss) \<le> length (join sep (t # ss))" using 3 by simp
  ultimately show ?case by simp
qed

lemma scan_once_array:
  assumes "scan_array n (CHR ''{'' # z) = Some (vs, r)"
  shows "scan_once (Suc n) (CHR ''['' # newline_indent k @ CHR ''{'' # z) = Some (JArr vs, r)"
  apply (subst scan_once.simps(2))
  apply (simp add: assms skip_ws_newline_indent skip_ws_stop is_ws_def
              del: scan_once.simps scan_array.simps)
  done

lemma encode_todo_sequence:
  "its \<noteq> [] \<Longrightarrow>
   encode lvl (todo_sequence its)
   = Some (CHR ''['' # newline_indent (Suc lvl)
           @ join (CHR '','' # newline_indent (Suc lvl))
               (map (\<lambda>(item, stamp). the (encode (Suc lvl) (todo_record item stamp))) its)
           @ newline_indent lvl @ '']'')"
  by (simp add: todo_sequence_def those_records del: map_map)

lemma json_decode_encode_todo_sequence:
  assumes "json_encode (todo_sequence its) = Some s"
  shows "json_decode s = Some (todo_sequence its)"
proof (cases "its = []")
  case True
  then have "s = ''[]''"
    using assms by (simp add: json_encode_def todo_sequence_def)
  then show ?thesis
    using True by (simp add: json_decode_def todo_sequence_def skip_ws_def is_ws_def)
next
  case False
  let ?ts = "map (\<lambda>(item, stamp). the (encode (Suc 0) (todo_record item stamp))) its"
  let ?body = "join (CHR '','' # newline_indent (Suc 0)) ?ts @ newline_indent 0 @ '']''"
  have s: "s = CHR ''['' # newline_indent (Suc 0) @ ?body"
    using assms False by (simp add: json_encode_def encode_todo_sequence)
  obtain z where z: "?body = CHR ''{'' # z"
    using records_text_head [OF False] by blast
  have "\<forall>t \<in> set ?ts. t \<noteq> []"
    by (auto simp: encode_record)
  then have "length its \<le> length (join (CHR '','' # newline_indent (Suc 0)) ?ts)"
    using length_join [of ?ts] by simp
  then have "length its + 4 \<le> length s"
    by (simp add: s newline_indent_def)
  then obtain m where "length s = (length its + 4) + m"
    using le_Suc_ex by blast
  then have m: "length s = Suc (Suc (Suc (Suc (length its + m))))"
    by simp
  have "scan_array (length s) ?body
        = Some (map (\<lambda>(item, stamp). todo_record item stamp) its, [])"
    unfolding m using scan_array_records [OF False, of m "Suc 0" 0 "[]"] by simp
  then have "scan_array (length s) (CHR ''{'' # z) = Some (map (\<lambda>(item, stamp). todo_record item stamp) its, [])"
    by (simp only: z)
  then have "scan_once (Suc (length s)) (CHR ''['' # newline_indent (Suc 0) @ CHR ''{'' # z)
        = Some (todo_sequence its, [])"
    unfolding todo_sequence_def by (rule scan_once_array)
  then have "scan_once (Suc (length s)) s = Some (todo_sequence its, [])"
    by (simp only: s z)
  moreover have "skip_ws s = s"
    by (simp add: s skip_ws_stop is_ws_def)
  ultimately show ?thesis
    by (simp add: json_decode_def skip_ws_def)
qed

lemma json_encode_todo_sequence_defined: "\<exists>s. json_encode (todo_sequence its) = Some s"
  by (cases "its = []") (simp_all add: json_encode_def encode_todo_sequence, simp add: todo_sequence_def)

section \<open>Persistence: saving and loading again\<close>

text \<open>
  C4. For every todo sequence \<open>v\<close>, records of an item and a time stamp: when the
  \<open>json\<close> module does on \<open>v\<close> what the model of it does, and \<open>save_json(path, v)\<close>
  wrote the file (the serialisation and the write both went through), then
  \<open>load_json(path, default)\<close> on the state the save leaves returns \<open>v\<close>, whatever the
  default. That the text written reads back as \<open>v\<close> is not assumed: it is
  \<open>json_decode_encode_todo_sequence\<close>.
\<close>

theorem save_then_load_roundtrip:
  assumes "library_follows_model en (todo_sequence its)"
    and "save_succeeds en path (todo_sequence its) w"
  shows "load_json en (save_json en path (todo_sequence its) w) path dflt
         = Inr (todo_sequence its)"
proof -
  from assms(1) obtain s u where s: "json_encode (todo_sequence its) = Some s"
      and d: "json_dumps en (todo_sequence its) = Inr s"
      and u: "json_decode s = Some u" and l: "json_loads en s = Inr u"
    by (auto simp: library_follows_model_def split: option.splits)
  have "u = todo_sequence its"
    using json_decode_encode_todo_sequence [OF s] u by simp
  with l have l': "json_loads en s = Inr (todo_sequence its)"
    by simp
  from assms(2) d have wr: "write_text en (trace w) path s = None"
    by (simp add: save_succeeds_def)
  have "files (save_json en path (todo_sequence its) w) path = Some (Contents s)"
    using d wr by (simp add: save_json_def)
  then show ?thesis
    using l' by (simp add: load_json_def path_exists_def read_text_def loads_def)
qed

theorem save_then_load_roundtrip_witness:
  "library_follows_model codec_env
     (todo_sequence
        [(''buy milk'', ''2024-01-01T00:00:00''),
         (''say '' @ [CHR 0x22] @ ''hi'' @ [CHR 0x22, CHR 0x0A, CHR 0xE9], ''2024-01-02T08:30:00'')])
   \<and> save_succeeds codec_env ''todo.json''
       (todo_sequence
          [(''buy milk'', ''2024-01-01T00:00:00''),
           (''say '' @ [CHR 0x22] @ ''hi'' @ [CHR 0x22, CHR 0x0A, CHR 0xE9], ''2024-01-02T08:30:00'')])
       demo_world
   \<and> load_json codec_env
       (save_json codec_env ''todo.json''
          (todo_sequence
             [(''buy milk'', ''2024-01-01T00:00:00''),
              (''say '' @ [CHR 0x22] @ ''hi'' @ [CHR 0x22, CHR 0x0A, CHR 0xE9], ''2024-01-02T08:30:00'')])
          demo_world)
       ''todo.json'' JNull
     = Inr (todo_sequence
              [(''buy milk'', ''2024-01-01T00:00:00''),
               (''say '' @ [CHR 0x22] @ ''hi'' @ [CHR 0x22, CHR 0x0A, CHR 0xE9], ''2024-01-02T08:30:00'')])"
proof -
  let ?v = "todo_sequence
        [(''buy milk'', ''2024-01-01T00:00:00''),
         (''say '' @ [CHR 0x22] @ ''hi'' @ [CHR 0x22, CHR 0x0A, CHR 0xE9], ''2024-01-02T08:30:00'')]"
  have a: "library_follows_model codec_env ?v"
    by code_simp
  have b: "save_succeeds codec_env ''todo.json'' ?v demo_world"
    by code_simp
  show ?thesis
    using save_then_load_roundtrip [OF a b, of JNull] a b by simp
qed

section \<open>The knowledge fallback\<close>

lemma wikipedia_answer_returns: "\<exists>reply. wikipedia_answer en prompt w = (Inr reply, w)"
  by (simp add: wikipedia_answer_def split: wiki_result.split)

text \<open>
  C3. For every prompt \<open>_answer_with_ai\<close> returns a reply and does not raise. When no
  chat credential is configured (the key is absent or empty) and the lookup backend is not
  available, the reply is the fixed apology and the state is unchanged.
\<close>

theorem answer_with_ai_never_raises:
  "(\<exists>reply w'. answer_with_ai en prompt w = (Inr reply, w'))
   \<and> ((openai_key en = None \<or> openai_key en = Some []) \<and> \<not> have_wikipedia en
        \<longrightarrow> answer_with_ai en prompt w = (Inr APOLOGY, w))"
proof
  show "\<exists>reply w'. answer_with_ai en prompt w = (Inr reply, w')"
  proof (cases "ai_enabled en")
    case False
    then show ?thesis
      using wikipedia_answer_returns [of en prompt w] by (auto simp: answer_with_ai_def)
  next
    case True
    let ?w1 = "w\<lparr>chat_history := chat_history w @ [(''user'', prompt)]\<rparr>"
    show ?thesis
    proof (cases "chat_completion en (trace ?w1) ((''system'', SYSTEM_PROMPT) # chat_history ?w1)")
      case (Inr content)
      with True show ?thesis by (simp add: answer_with_ai_def Let_def)
    next
      case (Inl m)
      with True show ?thesis
        using wikipedia_answer_returns
          [of en prompt "emit (Print (''OpenAI error: '' @ m)) ?w1"]
        by (auto simp: answer_with_ai_def Let_def)
    qed
  qed
next
  show "(openai_key en = None \<or> openai_key en = Some []) \<and> \<not> have_wikipedia en
        \<longrightarrow> answer_with_ai en prompt w = (Inr APOLOGY, w)"
    by (auto simp: answer_with_ai_def ai_enabled_def wikipedia_answer_def)
qed

theorem answer_with_ai_never_raises_witness:
  "openai_key demo_env = None \<and> \<not> have_wikipedia demo_env
   \<and> answer_with_ai demo_env ''what is a monad'' demo_world = (Inr APOLOGY, demo_world)"
  using answer_with_ai_never_raises [of demo_env "''what is a monad''" demo_world]
  by (simp add: demo_env_def)

section \<open>Opening a website when the browser call raises\<close>

text \<open>
  C2. The claim is that a failing browser launch is logged and absorbed, so that
  \<open>_open_website\<close> still returns a reply. \<open>webbrowser.open\<close> is called outside any
  \<open>try\<close>: with a browser whose call raises, the utterance \<open>open youtube\<close> makes
  \<open>handle_command\<close> end with that exception, and the only event is the call itself;
  nothing is printed.
\<close>

theorem open_command_browser_failure:
  "fst (handle_command
          (demo_env\<lparr>browser_open := (\<lambda>h url. Inl ''No closing quotation'')\<rparr>)
          ''open youtube'' demo_world)
     = Inl (BrowserError ''No closing quotation'')
   \<and> trace (snd (handle_command
          (demo_env\<lparr>browser_open := (\<lambda>h url. Inl ''No closing quotation'')\<rparr>)
          ''open youtube'' demo_world))
     = [Open ''https://www.youtube.com'']"
  by code_simp

section \<open>Listing the todos\<close>

lemma str_nat_1: "str_nat (Suc 0) = ''1''" by code_simp
lemma str_nat_2: "str_nat (Suc (Suc 0)) = ''2''" by code_simp

lemma list_route:
  assumes "py_strip (py_lower text) \<in> set [''list todo'', ''show todo'', ''todos'']"
  shows "handle_command en text w = list_todo en w"
proof -
  from assms consider "py_strip (py_lower text) = ''list todo''"
    | "py_strip (py_lower text) = ''show todo''" | "py_strip (py_lower text) = ''todos''"
    by auto
  then show ?thesis
    by cases (simp_all add: handle_command_def startswith_def)
qed

lemma todo_entries_records:
  "todo_entries en i (map (\<lambda>(s, t). todo_record s t) its)
   = Inr (map (\<lambda>(k, (s, t)). str_nat (k + 1) @ ''. '' @ s) (enumerate i its))"
  by (induction its arbitrary: i) (auto simp: todo_record_def format_value_def)

text \<open>
  C5. An utterance whose lower-cased, stripped form is \<open>list todo\<close>, \<open>show todo\<close> or
  \<open>todos\<close> is answered, on the empty sequence, with the fixed empty message; on a
  non-empty sequence of todo records with the line that numbers the items from 1, in
  insertion order, joined by \<open>; \<close>. For the items \<open>buy milk\<close> and \<open>call mom\<close> the line
  is \<open>Here are your todos: 1. buy milk; 2. call mom\<close>. The state is unchanged.
\<close>

theorem list_todo_command:
  assumes "py_strip (py_lower text) \<in> set [''list todo'', ''show todo'', ''todos'']"
  shows "(todo_list w = JArr [] \<longrightarrow> handle_command en text w = (Inr EMPTY_MESSAGE, w))
    \<and> (its \<noteq> [] \<and> todo_list w = JArr (map (\<lambda>(s, t). todo_record s t) its) \<longrightarrow>
         handle_command en text w
         = (Inr (''Here are your todos: ''
                 @ join ''; '' (map (\<lambda>(k, (s, t)). str_nat (k + 1) @ ''. '' @ s) (enumerate 0 its))), w))
    \<and> (todo_list w = JArr [todo_record ''buy milk'' t1, todo_record ''call mom'' t2] \<longrightarrow>
         handle_command en text w = (Inr ''Here are your todos: 1. buy milk; 2. call mom'', w))"
proof (intro conjI impI)
  assume "todo_list w = JArr []"
  then show "handle_command en text w = (Inr EMPTY_MESSAGE, w)"
    by (simp add: list_route [OF assms] list_todo_def)
next
  assume a: "its \<noteq> [] \<and> todo_list w = JArr (map (\<lambda>(s, t). todo_record s t) its)"
  then show "handle_command en text w
         = (Inr (''Here are your todos: ''
                 @ join ''; '' (map (\<lambda>(k, (s, t)). str_nat (k + 1) @ ''. '' @ s) (enumerate 0 its))), w)"
    by (simp add: list_route [OF assms] list_todo_def todo_entries_records)
next
  assume "todo_list w = JArr [todo_record ''buy milk'' t1, todo_record ''call mom'' t2]"
  then show "handle_command en text w = (Inr ''Here are your todos: 1. buy milk; 2. call mom'', w)"
    by (simp add: list_route [OF assms] list_todo_def todo_record_def format_value_def
        str_nat_1 str_nat_2)
qed

theorem list_todo_command_witness:
  "py_strip (py_lower '' List Todo '') \<in> set [''list todo'', ''show todo'', ''todos'']
   \<and> handle_command demo_env '' List Todo '' demo_world = (Inr EMPTY_MESSAGE, demo_world)
   \<and> handle_command demo_env '' List Todo ''
        (demo_world\<lparr>todo_list := JArr [todo_record ''buy milk'' ''t1'', todo_record ''call mom'' ''t2'']\<rparr>)
      = (Inr ''Here are your todos: 1. buy milk; 2. call mom'',
         demo_world\<lparr>todo_list := JArr [todo_record ''buy milk'' ''t1'', todo_record ''call mom'' ''t2'']\<rparr>)"
proof -
  have h: "py_strip (py_lower '' List Todo '') \<in> set [''list todo'', ''show todo'', ''todos'']"
    by code_simp
  have e: "todo_list demo_world = JArr []"
    by (simp add: demo_world_def)
  show ?thesis
    using h e
      list_todo_command [OF h, of demo_world demo_env "[]" "''t1''" "''t2''"]
      list_todo_command [OF h,
        of "demo_world\<lparr>todo_list := JArr [todo_record ''buy milk'' ''t1'', todo_record ''call mom'' ''t2'']\<rparr>"
           demo_env "[]" "''t1''" "''t2''"]
    by simp
qed

section \<open>What listing needs of the loaded value\<close>

lemma todo_entries_has_item:
  "list_all has_item xs \<Longrightarrow> \<exists>ss. todo_entries en i xs = Inr ss"
proof (induction xs arbitrary: i)
  case Nil
  then show ?case by simp
next
  case (Cons x xs)
  from Cons.prems obtain kvs v where x: "x = JObj kvs" "map_of kvs ''item'' = Some v"
    by (auto simp: has_item_def split: json.splits)
  from Cons.prems have "list_all has_item xs" by simp
  from Cons.IH [OF this, of "i + 1"] obtain ss where "todo_entries en (i + 1) xs = Inr ss" ..
  with x show ?case by simp
qed

text \<open>
  C10. On a non-empty todo sequence whose elements all are dicts with the key \<open>item\<close>,
  \<open>_list_todo\<close> returns a line and raises nothing. \<open>load_json\<close> checks no shape: when
  the file holds a text that parses, it returns the parsed value whatever it is. So a
  file holding \<open>[1]\<close> is accepted, though its element is no such dict, and
  \<open>_list_todo\<close> on that value ends with a \<open>TypeError\<close>.
\<close>

theorem list_todo_needs_item_records:
  "(xs \<noteq> [] \<and> list_all has_item xs \<and> todo_list w = JArr xs
      \<longrightarrow> (\<exists>s. list_todo en w = (Inr s, w)))
   \<and> (files w path = Some (Contents c) \<and> json_loads en c = Inr v
      \<longrightarrow> load_json en w path dflt = Inr v)
   \<and> \<not> list_all has_item [JInt 1]
   \<and> list_todo en (w\<lparr>todo_list := JArr [JInt 1]\<rparr>)
       = (Inl TypeError, w\<lparr>todo_list := JArr [JInt 1]\<rparr>)"
proof (intro conjI impI)
  assume a: "xs \<noteq> [] \<and> list_all has_item xs \<and> todo_list w = JArr xs"
  then obtain ss where "todo_entries en 0 xs = Inr ss"
    using todo_entries_has_item [of xs en 0] by blast
  with a show "\<exists>s. list_todo en w = (Inr s, w)"
    by (simp add: list_todo_def)
next
  assume "files w path = Some (Contents c) \<and> json_loads en c = Inr v"
  then show "load_json en w path dflt = Inr v"
    by (simp add: load_json_def path_exists_def read_text_def loads_def)
next
  show "\<not> list_all has_item [JInt 1]"
    by (simp add: has_item_def)
next
  show "list_todo en (w\<lparr>todo_list := JArr [JInt 1]\<rparr>)
        = (Inl TypeError, w\<lparr>todo_list := JArr [JInt 1]\<rparr>)"
    by (simp add: list_todo_def)
qed

theorem list_todo_needs_item_records_witness:
  "list_all has_item [todo_record ''buy milk'' ''t1'']
   \<and> (\<exists>s. list_todo demo_env (demo_world\<lparr>todo_list := JArr [todo_record ''buy milk'' ''t1'']\<rparr>)
          = (Inr s, demo_world\<lparr>todo_list := JArr [todo_record ''buy milk'' ''t1'']\<rparr>))
   \<and> load_json (demo_env\<lparr>json_loads := (\<lambda>s. if s = ''[1]'' then Inr (JArr [JInt 1]) else Inl ''Expecting value'')\<rparr>)
        (demo_world\<lparr>files := (\<lambda>p. Some (Contents ''[1]''))\<rparr>) ''todo.json'' (JArr [])
      = Inr (JArr [JInt 1])"
proof -
  have a: "list_all has_item [todo_record ''buy milk'' ''t1'']"
    by (simp add: has_item_def todo_record_def)
  show ?thesis
    using a
      list_todo_needs_item_records
        [where xs = "[todo_record ''buy milk'' ''t1'']"
           and w = "demo_world\<lparr>todo_list := JArr [todo_record ''buy milk'' ''t1'']\<rparr>"
           and en = demo_env]
      list_todo_needs_item_records
        [where w = "demo_world\<lparr>files := (\<lambda>p. Some (Contents ''[1]''))\<rparr>"
           and path = "''todo.json''" and c = "''[1]''" and v = "JArr [JInt 1]" and dflt = "JArr []"
           and en = "demo_env\<lparr>json_loads := (\<lambda>s. if s = ''[1]'' then Inr (JArr [JInt 1]) else Inl ''Expecting value'')\<rparr>"]
    by simp
qed

section \<open>Facts about the string operations\<close>

lemma py_lower_append: "py_lower (a @ b) = py_lower a @ py_lower b"
  by (simp add: py_lower_def)

lemma length_py_lower: "length (py_lower s) = length s"
  by (simp add: py_lower_def)

lemma isspace_lower_char: "py_isspace (py_lower_char c) = py_isspace c"
proof -
  have "of_char c < (256::nat)" by simp
  then show ?thesis
    by (auto simp: py_isspace_def py_lower_char_def Let_def)
qed

lemma py_rstrip_append:
  assumes "c \<in> set b" "\<not> py_isspace c"
  shows "py_rstrip (a @ b) = a @ py_rstrip b"
proof -
  from assms have "c \<in> set (rev b)" by simp
  then have "dropWhile py_isspace (rev b @ rev a) = dropWhile py_isspace (rev b) @ rev a"
    using assms(2) by (rule dropWhile_append1)
  then show ?thesis by (simp add: py_rstrip_def)
qed

lemma py_rstrip_nonempty:
  assumes "c \<in> set b" "\<not> py_isspace c"
  shows "py_rstrip b \<noteq> []"
proof -
  from assms have "c \<in> set (rev b)" by simp
  with assms(2) have "dropWhile py_isspace (rev b) \<noteq> []"
    by (auto simp: dropWhile_eq_Nil_conv)
  then show ?thesis by (simp add: py_rstrip_def)
qed

lemma strip_nonempty_witness:
  assumes "py_strip s \<noteq> []"
  shows "\<exists>c \<in> set s. \<not> py_isspace c"
proof (rule ccontr)
  assume "\<not> (\<exists>c \<in> set s. \<not> py_isspace c)"
  then have "dropWhile py_isspace s = []" by (auto simp: dropWhile_eq_Nil_conv)
  with assms show False by (simp add: py_strip_def py_lstrip_def py_rstrip_def)
qed

lemma lower_nonspace:
  assumes "c \<in> set s" "\<not> py_isspace c"
  shows "py_lower_char c \<in> set (py_lower s) \<and> \<not> py_isspace (py_lower_char c)"
  using assms by (simp add: py_lower_def isspace_lower_char)

text \<open>A text that starts with a word and has something after it keeps the word when stripped.\<close>

lemma strip_keeps_command:
  assumes "p \<noteq> []" "\<not> py_isspace (hd p)" "c \<in> set r" "\<not> py_isspace c"
  shows "py_strip (p @ r) = p @ py_rstrip r"
proof -
  from assms(1,2) have "py_lstrip (p @ r) = p @ r"
    by (cases p) (simp_all add: py_lstrip_def)
  then show ?thesis
    using py_rstrip_append [OF assms(3,4), of p] by (simp add: py_strip_def)
qed

lemma startswith_append: "startswith (p @ r) p"
  by (simp add: startswith_def)


section \<open>Opening a website\<close>

lemma open_route:
  assumes "length cmd = 5" "py_lower cmd = ''open ''" "py_strip rest \<noteq> []"
  shows "handle_command en (cmd @ rest) w = open_website en (py_strip rest) w"
proof -
  from assms(3) obtain c where c: "c \<in> set rest" "\<not> py_isspace c"
    using strip_nonempty_witness by blast
  have o: "\<not> py_isspace (hd ''open '')"
    by (simp add: py_isspace_def)
  have "py_strip (py_lower (cmd @ rest)) = ''open '' @ py_rstrip (py_lower rest)"
    using strip_keeps_command [of "''open ''" "py_lower_char c" "py_lower rest"]
      lower_nonspace [OF c] o assms(2)
    by (simp add: py_lower_append)
  then show ?thesis
    using assms(1) by (simp add: handle_command_def startswith_def)
qed

lemma resolve_url_cases:
  "(py_lower name = ''youtube'' \<longrightarrow> resolve_url name = ''https://www.youtube.com'')
   \<and> (py_lower name = ''google'' \<longrightarrow> resolve_url name = ''https://www.google.com'')
   \<and> (py_lower name = ''github'' \<longrightarrow> resolve_url name = ''https://github.com'')
   \<and> (py_lower name \<notin> set [''youtube'', ''google'', ''github''] \<longrightarrow>
        resolve_url name
        = ''https://www.google.com/search?q='' @ map (\<lambda>c. if c = CHR '' '' then CHR ''+'' else c) name)"
  by (simp add: resolve_url_def shortcuts_def SEARCH_PREFIX_def replace_space_plus_def)

text \<open>
  For an input that is the word \<open>open\<close> (in any casing) and a space, followed by
  text whose stripped form \<open>name\<close> is not empty, with a browser call that returns: the
  reply is \<open>Opening name\<close> and exactly one event is added, the opening of the resolved
  URL. When \<open>name\<close> lower-cased is a key of the shortcut table the URL is that
  shortcut's; otherwise it is the search prefix followed by \<open>name\<close> with each space
  replaced by \<open>+\<close>.
\<close>

theorem open_command_opens_resolved_url:
  assumes "length cmd = 5" and "py_lower cmd = ''open ''"
    and "name = py_strip rest" and "name \<noteq> []"
    and "browser_open en (trace w) (resolve_url name) = Inr b"
  shows "handle_command en (cmd @ rest) w
         = (Inr (''Opening '' @ name), w\<lparr>trace := trace w @ [Open (resolve_url name)]\<rparr>)
    \<and> (py_lower name = ''youtube'' \<longrightarrow> resolve_url name = ''https://www.youtube.com'')
    \<and> (py_lower name = ''google'' \<longrightarrow> resolve_url name = ''https://www.google.com'')
    \<and> (py_lower name = ''github'' \<longrightarrow> resolve_url name = ''https://github.com'')
    \<and> (py_lower name \<notin> set [''youtube'', ''google'', ''github''] \<longrightarrow>
         resolve_url name
         = ''https://www.google.com/search?q='' @ map (\<lambda>c. if c = CHR '' '' then CHR ''+'' else c) name)"
proof -
  have "handle_command en (cmd @ rest) w = open_website en name w"
    using open_route [of cmd rest en w] assms(1-4) by simp
  then have "handle_command en (cmd @ rest) w
         = (Inr (''Opening '' @ name), w\<lparr>trace := trace w @ [Open (resolve_url name)]\<rparr>)"
    using assms(5) by (simp add: open_website_def emit_def Let_def)
  then show ?thesis
    using resolve_url_cases [of name] by blast
qed

theorem open_command_opens_resolved_url_witness:
  "handle_command demo_env ''Open  YouTube '' demo_world
     = (Inr ''Opening YouTube'', demo_world\<lparr>trace := [Open ''https://www.youtube.com'']\<rparr>)
   \<and> handle_command demo_env ''open isabelle proof assistant'' demo_world
     = (Inr ''Opening isabelle proof assistant'',
        demo_world\<lparr>trace := [Open ''https://www.google.com/search?q=isabelle+proof+assistant'']\<rparr>)"
proof -
  have n1: "''YouTube'' = py_strip '' YouTube ''" by code_simp
  have l1: "py_lower ''Open '' = ''open ''" by code_simp
  have k1: "py_lower ''YouTube'' = ''youtube''" by code_simp
  have b1: "browser_open demo_env (trace demo_world) (resolve_url ''YouTube'') = Inr True"
    by (simp add: demo_env_def)
  have n2: "''isabelle proof assistant'' = py_strip ''isabelle proof assistant''" by code_simp
  have l2: "py_lower ''open '' = ''open ''" by code_simp
  have k2: "py_lower ''isabelle proof assistant'' \<notin> set [''youtube'', ''google'', ''github'']"
    by code_simp
  have b2: "browser_open demo_env (trace demo_world) (resolve_url ''isabelle proof assistant'') = Inr True"
    by (simp add: demo_env_def)
  have t: "trace demo_world = []" by (simp add: demo_world_def)
  show ?thesis
    using open_command_opens_resolved_url [OF _ l1 n1 _ b1]
      open_command_opens_resolved_url [OF _ l2 n2 _ b2]
      k1 k2 t
    by simp
qed

section \<open>Opening a website after leading whitespace\<close>

text \<open>
  C6. The claim is that for every input \<open>open name\<close> the router opens the shortcut's
  URL when \<open>name\<close> is a key of the table, and the search URL for \<open>name\<close> otherwise.
  The router takes an utterance for an \<open>open\<close> command by its lower-cased, stripped
  form, and cuts the name from the text as it came, at the fixed offset 5. For the
  utterance \<open>open youtube\<close> with two leading spaces the name is \<open>n youtube\<close>: the
  search URL for it is opened, not the shortcut, and the reply names \<open>n youtube\<close>.
\<close>

theorem open_after_leading_whitespace:
  "startswith (py_strip (py_lower ''  open youtube'')) ''open ''
   \<and> fst (handle_command demo_env ''  open youtube'' demo_world) = Inr ''Opening n youtube''
   \<and> trace (snd (handle_command demo_env ''  open youtube'' demo_world))
       = [Open ''https://www.google.com/search?q=n+youtube'']"
  by code_simp

section \<open>The todo sequence only grows\<close>

lemma todo_list_emit: "todo_list (emit e w) = todo_list w"
  by (simp add: emit_def)

lemma todo_list_save_json: "todo_list (save_json en path d w) = todo_list w"
  by (simp add: save_json_def todo_list_emit split: sum.split option.split prod.split)

lemma todo_list_open_website: "todo_list (snd (open_website en target w)) = todo_list w"
  by (simp add: open_website_def Let_def todo_list_emit split: sum.split)

lemma todo_list_list_todo: "snd (list_todo en w) = w"
  by (simp add: list_todo_def split: sum.split)

lemma todo_list_wikipedia_answer: "snd (wikipedia_answer en prompt w) = w"
  by (simp add: wikipedia_answer_def split: wiki_result.split)

lemma todo_list_answer_with_ai: "todo_list (snd (answer_with_ai en prompt w)) = todo_list w"
  by (simp add: answer_with_ai_def Let_def todo_list_wikipedia_answer todo_list_emit
      split: sum.split)

lemma todo_list_add_todo:
  "todo_list w = JArr xs \<Longrightarrow>
   todo_list (snd (add_todo en item w)) = JArr (xs @ [todo_record item (now_iso en (trace w))])"
  by (simp add: add_todo_def todo_list_save_json)

lemma todo_list_add_todo_other:
  "\<forall>xs. todo_list w \<noteq> JArr xs \<Longrightarrow> snd (add_todo en item w) = w"
  by (cases "todo_list w") (simp_all add: add_todo_def)

lemma greeting_not_add:
  "lower \<in> set [''hi'', ''hello'', ''hey''] \<Longrightarrow> \<not> startswith lower ''add todo ''"
  by (auto simp: startswith_def)

lemma open_not_add: "startswith lower ''open '' \<Longrightarrow> \<not> startswith lower ''add todo ''"
  by (cases lower) (auto simp: startswith_def)

lemma handle_command_todo_list:
  "todo_list (snd (handle_command en text w))
   = (if startswith (py_strip (py_lower text)) ''add todo ''
      then todo_list (snd (add_todo en (py_strip (drop 9 text)) w))
      else todo_list w)"
  using greeting_not_add [of "py_strip (py_lower text)"] open_not_add [of "py_strip (py_lower text)"]
  by (auto simp add: handle_command_def Let_def todo_list_open_website todo_list_list_todo
      todo_list_answer_with_ai simp del: set_simps)

text \<open>
  C9. Whatever the utterance, \<open>handle_command\<close> leaves a todo sequence with the earlier
  sequence as its prefix: no stored record is changed or removed. The length grows by at
  most one, and by exactly one precisely when the lower-cased, stripped utterance starts
  with \<open>add todo \<close>. A \<open>todo_list\<close> that is not a list is left as it is.
\<close>

theorem todo_sequence_append_only:
  "(todo_list w = JArr xs \<longrightarrow>
      (\<exists>ys. todo_list (snd (handle_command en text w)) = JArr ys
         \<and> take (length xs) ys = xs
         \<and> length ys \<le> length xs + 1
         \<and> (length ys = length xs + 1 \<longleftrightarrow> startswith (py_strip (py_lower text)) ''add todo '')))
   \<and> ((\<forall>xs. todo_list w \<noteq> JArr xs) \<longrightarrow> todo_list (snd (handle_command en text w)) = todo_list w)"
proof (intro conjI impI)
  assume l: "todo_list w = JArr xs"
  show "\<exists>ys. todo_list (snd (handle_command en text w)) = JArr ys
         \<and> take (length xs) ys = xs
         \<and> length ys \<le> length xs + 1
         \<and> (length ys = length xs + 1 \<longleftrightarrow> startswith (py_strip (py_lower text)) ''add todo '')"
  proof (cases "startswith (py_strip (py_lower text)) ''add todo ''")
    case True
    then show ?thesis
      using todo_list_add_todo [OF l, of en "py_strip (drop 9 text)"]
      by (simp add: handle_command_todo_list)
  next
    case False
    then show ?thesis
      using l by (simp add: handle_command_todo_list)
  qed
next
  assume "\<forall>xs. todo_list w \<noteq> JArr xs"
  then show "todo_list (snd (handle_command en text w)) = todo_list w"
    using todo_list_add_todo_other [of w en "py_strip (drop 9 text)"]
    by (simp add: handle_command_todo_list)
qed

theorem todo_sequence_append_only_witness:
  "todo_list (demo_world\<lparr>todo_list := JArr [todo_record ''call mom'' ''t0'']\<rparr>)
     = JArr [todo_record ''call mom'' ''t0'']
   \<and> (\<exists>ys. todo_list (snd (handle_command demo_env ''Add Todo Buy Milk''
                (demo_world\<lparr>todo_list := JArr [todo_record ''call mom'' ''t0'']\<rparr>))) = JArr ys
        \<and> take 1 ys = [todo_record ''call mom'' ''t0''] \<and> length ys = 2)
   \<and> todo_list (snd (handle_command demo_env ''hello''
                (demo_world\<lparr>todo_list := JArr [todo_record ''call mom'' ''t0'']\<rparr>)))
      = JArr [todo_record ''call mom'' ''t0'']"
proof -
  have a: "startswith (py_strip (py_lower ''Add Todo Buy Milk'')) ''add todo ''" by code_simp
  have b: "\<not> startswith (py_strip (py_lower ''hello'')) ''add todo ''" by code_simp
  show ?thesis
    using a b
      todo_sequence_append_only
        [of "demo_world\<lparr>todo_list := JArr [todo_record ''call mom'' ''t0'']\<rparr>"
            "[todo_record ''call mom'' ''t0'']" demo_env "''Add Todo Buy Milk''"]
      todo_sequence_append_only
        [of "demo_world\<lparr>todo_list := JArr [todo_record ''call mom'' ''t0'']\<rparr>"
            "[todo_record ''call mom'' ''t0'']" demo_env "''hello''"]
    by auto
qed

section \<open>Adding a todo after leading whitespace\<close>

text \<open>
  C1. The claim is that for every utterance whose lower-cased, stripped form starts with
  \<open>add todo \<close> the new last record's item is the text after that prefix. The test reads
  the stripped text, but the item is cut from the text as it came, at the fixed offset 9:
  for the utterance \<open>add todo milk\<close> with two leading spaces the stored item, and the
  item echoed in the reply, is \<open>o milk\<close>.
\<close>

theorem add_todo_after_leading_whitespace:
  "startswith (py_strip (py_lower ''  add todo milk'')) ''add todo ''
   \<and> fst (handle_command demo_env ''  add todo milk'' demo_world)
       = Inr ''Added to your todo list: o milk''
   \<and> todo_list (snd (handle_command demo_env ''  add todo milk'' demo_world))
       = JArr [JObj [(''item'', JStr ''o milk''), (''added_at'', JStr ''2024-01-01T00:00:00'')]]"
  by code_simp

section \<open>Leaving the main loop\<close>

lemma is_exit_nonempty: "is_exit text \<Longrightarrow> text \<noteq> []"
  by (auto simp: is_exit_def py_strip_def py_lower_def py_lstrip_def py_rstrip_def)

lemma say_frame:
  "todo_list (say en t b w) = todo_list w \<and> chat_history (say en t b w) = chat_history w
   \<and> files (say en t b w) = files w \<and> running (say en t b w) = running w"
  by (simp add: say_def emit_def Let_def split: option.split)

lemma trace_say:
  "trace (say en t True w)
   = trace w @ [Print (''Shree: '' @ t)]
     @ (if have_tts en
        then (case tts_say en (trace w @ [Print (''Shree: '' @ t)]) t True of
                None \<Rightarrow> [Speak t]
              | Some m \<Rightarrow> [Print (''TTS error: '' @ m)])
        else [])"
  by (simp add: say_def emit_def Let_def split: option.split)

lemma main_loop_stopped: "\<not> running w \<Longrightarrow> main_loop en script w = (Returned, script, w)"
  by (cases script) simp_all

lemma main_loop_exit_step:
  assumes "running w" "is_exit text"
  shows "main_loop en (Recognized text # rest) w
         = (Returned, rest,
            (say en FAREWELL True
               (emit (Print (''User: '' @ text)) (emit (Print ''(Listening...)'') w)))
            \<lparr>running := False\<rparr>)"
  using assms is_exit_nonempty [OF assms(2)] by (simp add: listen_def Let_def)

lemma main_loop_reaches_exit:
  "is_exit text \<Longrightarrow>
   fst (main_loop en (pre @ Recognized text # rest) w) \<noteq> StillListening
   \<and> length rest \<le> length (fst (snd (main_loop en (pre @ Recognized text # rest) w)))"
proof (induction pre arbitrary: w)
  case Nil
  then show ?case
    using main_loop_exit_step [of w "text" en rest] main_loop_stopped [of w en "Recognized text # rest"]
    by (cases "running w") simp_all
next
  case (Cons h pre)
  show ?case
  proof (cases "running w")
    case False
    then show ?thesis
      using main_loop_stopped [of w en "(h # pre) @ Recognized text # rest"] by simp
  next
    case True
    then show ?thesis
      using Cons.IH [OF Cons.prems]
      by (cases h) (auto simp: listen_def Let_def split: prod.split sum.split)
  qed
qed

text \<open>
  C8. When the loop is running and hears an utterance whose lower-cased, stripped form is
  \<open>exit\<close>, \<open>quit\<close>, \<open>stop\<close> or \<open>goodbye\<close>: \<open>run\<close> returns, the rest of the script
  is never listened to, and \<open>running\<close> is false, so that the loop entered again would
  do nothing. The events added are the listening line, the transcript line, one farewell
  line and, with an engine, the one spoken farewell or the error it met. The todo
  sequence, the chat history and the files are as before: the utterance did not go
  through \<open>handle_command\<close>. Wherever such an utterance stands in a script, the loop
  does not get past it.
\<close>

theorem exit_phrase_ends_loop:
  assumes "running w" and "is_exit text"
    and "w' = snd (snd (main_loop en (Recognized text # rest) w))"
  shows "fst (main_loop en (Recognized text # rest) w) = Returned
    \<and> fst (snd (main_loop en (Recognized text # rest) w)) = rest
    \<and> \<not> running w'
    \<and> main_loop en rest w' = (Returned, rest, w')
    \<and> trace w'
        = trace w @ [Print ''(Listening...)'', Print (''User: '' @ text), Print (''Shree: '' @ FAREWELL)]
          @ (if have_tts en
             then (case tts_say en
                          (trace w @ [Print ''(Listening...)'', Print (''User: '' @ text),
                                      Print (''Shree: '' @ FAREWELL)]) FAREWELL True of
                     None \<Rightarrow> [Speak FAREWELL]
                   | Some m \<Rightarrow> [Print (''TTS error: '' @ m)])
             else [])
    \<and> todo_list w' = todo_list w \<and> chat_history w' = chat_history w \<and> files w' = files w
    \<and> fst (main_loop en (pre @ Recognized text # rest) w) \<noteq> StillListening
    \<and> length rest \<le> length (fst (snd (main_loop en (pre @ Recognized text # rest) w)))"
proof -
  let ?w1 = "emit (Print (''User: '' @ text)) (emit (Print ''(Listening...)'') w)"
  have w': "w' = (say en FAREWELL True ?w1)\<lparr>running := False\<rparr>"
    using main_loop_exit_step [OF assms(1,2), of en rest] assms(3) by simp
  have stop: "\<not> running w'" using w' by simp
  have tr: "trace ?w1 = trace w @ [Print ''(Listening...)'', Print (''User: '' @ text)]"
    by (simp add: emit_def)
  have fr: "todo_list ?w1 = todo_list w \<and> chat_history ?w1 = chat_history w \<and> files ?w1 = files w"
    by (simp add: emit_def)
  show ?thesis
    using main_loop_exit_step [OF assms(1,2), of en rest] w' stop
      main_loop_stopped [OF stop, of en rest] trace_say [of en FAREWELL ?w1] tr fr
      say_frame [of en FAREWELL True ?w1] main_loop_reaches_exit [OF assms(2), of en pre rest w]
    by simp
qed

theorem exit_phrase_ends_loop_witness:
  "running demo_world \<and> is_exit ''Goodbye''
   \<and> fst (main_loop demo_env [Recognized ''Goodbye'', Recognized ''hello''] demo_world) = Returned
   \<and> fst (snd (main_loop demo_env [Recognized ''Goodbye'', Recognized ''hello''] demo_world))
       = [Recognized ''hello'']
   \<and> trace (snd (snd (main_loop demo_env [Recognized ''Goodbye'', Recognized ''hello''] demo_world)))
       = [Print ''(Listening...)'', Print ''User: Goodbye'',
          Print ''Shree: Goodbye! Have a great day!'', Speak ''Goodbye! Have a great day!'']
   \<and> \<not> running (snd (snd (main_loop demo_env [Recognized ''Goodbye'', Recognized ''hello''] demo_world)))"
proof -
  have a: "running demo_world" by (simp add: demo_world_def)
  have b: "is_exit ''Goodbye''" by code_simp
  have t: "trace demo_world = []" by (simp add: demo_world_def)
  have e: "have_tts demo_env \<and> tts_say demo_env = (\<lambda>h t wait. None)" by (simp add: demo_env_def)
  show ?thesis
    using a b t e
      exit_phrase_ends_loop [OF a b refl, of demo_env "[Recognized ''hello'']" "[]"]
    by (simp add: FAREWELL_def)
qed

section \<open>Adding a todo\<close>

lemma add_route:
  assumes "length cmd = 9" "py_lower cmd = ''add todo ''" "py_strip rest \<noteq> []"
  shows "handle_command en (cmd @ rest) w = add_todo en (py_strip rest) w"
proof -
  from assms(3) obtain c where c: "c \<in> set rest" "\<not> py_isspace c"
    using strip_nonempty_witness by blast
  have o: "\<not> py_isspace (hd ''add todo '')"
    by (simp add: py_isspace_def)
  have "py_strip (py_lower (cmd @ rest)) = ''add todo '' @ py_rstrip (py_lower rest)"
    using strip_keeps_command [of "''add todo ''" "py_lower_char c" "py_lower rest"]
      lower_nonspace [OF c] o assms(2)
    by (simp add: py_lower_append)
  then show ?thesis
    using assms(1) by (simp add: handle_command_def startswith_def)
qed

text \<open>
  For an input that is the words \<open>add todo\<close> (in any casing) and a space, followed by
  text whose stripped form \<open>item\<close> is not empty, on a todo sequence: one record is
  appended, its item is \<open>item\<close> with its casing, the reply echoes it, and the whole new
  sequence is saved at once; when the serialisation and the write go through, the todo
  file holds the serialised new sequence.
\<close>

theorem add_todo_command_appends:
  assumes "length cmd = 9" and "py_lower cmd = ''add todo ''"
    and "item = py_strip rest" and "item \<noteq> []"
    and "todo_list w = JArr xs"
    and "new = JArr (xs @ [todo_record item (now_iso en (trace w))])"
  shows "handle_command en (cmd @ rest) w
         = (Inr (''Added to your todo list: '' @ item),
            save_json en (TODO_FILE en) new (w\<lparr>todo_list := new\<rparr>))
    \<and> todo_list (snd (handle_command en (cmd @ rest) w)) = new
    \<and> (\<forall>s. json_dumps en new = Inr s \<and> write_text en (trace w) (TODO_FILE en) s = None
          \<longrightarrow> files (snd (handle_command en (cmd @ rest) w)) (TODO_FILE en) = Some (Contents s))"
proof -
  have "handle_command en (cmd @ rest) w = add_todo en item w"
    using add_route [of cmd rest en w] assms(1-4) by simp
  then have h: "handle_command en (cmd @ rest) w
         = (Inr (''Added to your todo list: '' @ item),
            save_json en (TODO_FILE en) new (w\<lparr>todo_list := new\<rparr>))"
    using assms(5,6) by (simp add: add_todo_def)
  have t: "todo_list (snd (handle_command en (cmd @ rest) w)) = new"
    by (simp add: h todo_list_save_json)
  have f: "\<forall>s. json_dumps en new = Inr s \<and> write_text en (trace w) (TODO_FILE en) s = None
          \<longrightarrow> files (snd (handle_command en (cmd @ rest) w)) (TODO_FILE en) = Some (Contents s)"
    by (simp add: h save_json_def)
  from h t f show ?thesis by blast
qed

theorem add_todo_command_appends_witness:
  "handle_command demo_env ''Add Todo  Buy Milk '' demo_world
   = (Inr ''Added to your todo list: Buy Milk'',
      save_json demo_env (TODO_FILE demo_env) (JArr [todo_record ''Buy Milk'' ''2024-01-01T00:00:00''])
        (demo_world\<lparr>todo_list := JArr [todo_record ''Buy Milk'' ''2024-01-01T00:00:00'']\<rparr>))"
proof -
  have l: "py_lower ''Add Todo '' = ''add todo ''" by code_simp
  have n: "''Buy Milk'' = py_strip '' Buy Milk ''" by code_simp
  have t: "todo_list demo_world = JArr []" by (simp add: demo_world_def)
  have s: "now_iso demo_env (trace demo_world) = ''2024-01-01T00:00:00''" by (simp add: demo_env_def)
  show ?thesis
    using add_todo_command_appends [OF _ l n _ t refl, of demo_env] s by simp
qed

section \<open>Greetings\<close>

text \<open>
  An utterance whose lower-cased, stripped form is \<open>hi\<close>, \<open>hello\<close> or \<open>hey\<close> is
  answered with the fixed greeting, and nothing else happens.
\<close>

theorem greeting_has_no_effect:
  assumes "py_strip (py_lower utterance) \<in> set [''hi'', ''hello'', ''hey'']"
  shows "handle_command en utterance w = (Inr GREETING_REPLY, w)"
  using assms by (simp add: handle_command_def)

theorem greeting_has_no_effect_witness:
  "handle_command demo_env ''  Hello '' demo_world = (Inr ''Hello! How are you today?'', demo_world)"
proof -
  have a: "py_strip (py_lower ''  Hello '') \<in> set [''hi'', ''hello'', ''hey'']" by code_simp
  show ?thesis
    using greeting_has_no_effect [OF a, of demo_env demo_world] by (simp add: GREETING_REPLY_def)
qed

section \<open>A cycle without input\<close>

text \<open>
  When \<open>listen\<close> hears nothing before the timeout, or nothing it can read, the loop goes
  on to the next cycle: the listening line is the only event, nothing is said.
\<close>

theorem no_input_cycle_is_silent:
  assumes "running w" and "h = WaitTimeout \<or> h = UnknownValue"
  shows "main_loop en (h # rest) w = main_loop en rest (emit (Print ''(Listening...)'') w)"
  using assms by (auto simp: listen_def)

theorem no_input_cycle_is_silent_witness:
  "main_loop demo_env [WaitTimeout] demo_world
   = (StillListening, [], demo_world\<lparr>trace := [Print ''(Listening...)'']\<rparr>)"
proof -
  have a: "running demo_world" by (simp add: demo_world_def)
  show ?thesis
    using no_input_cycle_is_silent [OF a, of WaitTimeout demo_env "[]"]
    by (simp add: emit_def demo_world_def)
qed

end
